theory Spec2Isabelle
  imports Main "HOL-Library.Word" "HOL-Library.Multiset"
begin

section \<open>The vigilante monitor (monitor/monitor.go)\<close>

text \<open>
  The monitor checks the checkpoints that the BTC scanner reports against the
  checkpoints that Babylon holds for the same epoch. This theory embeds
  \<^verbatim>\<open>monitor.go\<close>: a Go function of the file is a HOL function of the same
  name; a method's receiver \<^verbatim>\<open>m *Monitor\<close> is an argument and, where the method
  writes a field, part of the result. \<^verbatim>\<open>runBTCScanner\<close>, which only starts the
  scanner in a goroutine of its own, is an entry of the trace of calls. Go's \<^verbatim>\<open>uint64\<close> is \<open>64 word\<close>, a byte
  slice is \<open>8 word list\<close>, an \<^verbatim>\<open>error\<close> result is \<open>None\<close> for \<^verbatim>\<open>nil\<close>, a pair
  \<^verbatim>\<open>(value, error)\<close> is a sum with the error on the left. Log lines are not
  modelled. Pointers are taken to be non-nil.
\<close>

subsection \<open>Data\<close>

type_synonym uint64 = "64 word"
type_synonym bytes = "8 word list"

text \<open>\<^verbatim>\<open>checkpointingtypes.RawCheckpoint\<close>, of which the monitor reads \<^verbatim>\<open>EpochNum\<close>
  and \<^verbatim>\<open>LastCommitHash\<close>; the bitmap and the signature are for the signature check.\<close>

record RawCheckpoint =
  EpochNum :: uint64
  LastCommitHash :: bytes
  Bitmap :: bytes
  BlsMultiSig :: bytes

text \<open>The answer of \<^verbatim>\<open>QueryRawCheckpoint\<close>, of which the monitor reads \<^verbatim>\<open>.Ckpt\<close>.\<close>

record RawCheckpointResponse =
  Ckpt :: RawCheckpoint

text \<open>\<^verbatim>\<open>types.CheckpointRecord\<close>: the scanner's event, and the unit of the checklist.\<close>

record CheckpointRecord =
  RawCheckpoint :: RawCheckpoint
  FirstSeenBtcHeight :: uint64

record ValidatorWithBlsKey =
  ValidatorAddress :: string
  BlsPubKey :: bytes
  VotingPower :: uint64

record ValidatorWithBlsKeySet =
  ValSet :: "ValidatorWithBlsKey list"

text \<open>Modelled from the spec: \<^verbatim>\<open>types.EpochInfo\<close> is declared outside
  \<^verbatim>\<open>monitor.go\<close>; the spec gives it an epoch number and the validator roster.\<close>

record EpochInfo =
  epoch_number :: uint64
  validator_roster :: ValidatorWithBlsKeySet

definition NewEpochInfo :: "uint64 \<Rightarrow> ValidatorWithBlsKeySet \<Rightarrow> EpochInfo" where
  "NewEpochInfo n vs = \<lparr>epoch_number = n, validator_roster = vs\<rparr>"

definition GetEpochNumber :: "EpochInfo \<Rightarrow> uint64" where
  "GetEpochNumber ei = epoch_number ei"

record MonitorConfig =
  LivenessChecker :: bool

text \<open>Modelled from the spec: \<^verbatim>\<open>types.CheckpointsBookkeeper\<close> is declared outside
  \<^verbatim>\<open>monitor.go\<close>; the spec makes it an ordered collection that \<^verbatim>\<open>Add\<close> appends
  to, with no deduplication.\<close>

type_synonym CheckpointsBookkeeper = "CheckpointRecord list"

definition NewCheckpointsBookkeeper :: CheckpointsBookkeeper where
  "NewCheckpointsBookkeeper = []"

definition Add :: "CheckpointRecord \<Rightarrow> CheckpointsBookkeeper \<Rightarrow> CheckpointsBookkeeper" where
  "Add cr cb = cb @ [cr]"

definition NewCheckpointRecord :: "RawCheckpoint \<Rightarrow> uint64 \<Rightarrow> CheckpointRecord" where
  "NewCheckpointRecord ckpt height = \<lparr>RawCheckpoint = ckpt, FirstSeenBtcHeight = height\<rparr>"

text \<open>The \<^verbatim>\<open>Monitor\<close> struct. \<open>quit\<close> is the channel \<^verbatim>\<open>m.quit\<close>, on which nothing
  is ever sent: all that matters is whether it has been closed. The scanner and
  the querier are not fields here but the record of collaborators below.\<close>

record Monitor =
  Cfg :: MonitorConfig
  curEpoch :: EpochInfo
  checkpointChecklist :: CheckpointsBookkeeper
  started :: bool
  quit :: bool

subsection \<open>Collaborators\<close>

text \<open>
  What \<^verbatim>\<open>monitor.go\<close> calls and does not define: the signature check of
  \<^verbatim>\<open>types.EpochInfo\<close>, the three queries of \<^verbatim>\<open>querier.Querier\<close>, and the hash of a
  BTC header (\<open>'h\<close> is the header type). Each is a parameter of the model. An
  error of a collaborator is its message.
\<close>

record 'h collaborators =
  VerifyMultiSig :: "EpochInfo \<Rightarrow> RawCheckpoint \<Rightarrow> string option"
  QueryRawCheckpoint :: "uint64 \<Rightarrow> string + RawCheckpointResponse"
  QueryInfoForNextEpoch :: "uint64 \<Rightarrow> string + EpochInfo"
  BlockHash :: "'h \<Rightarrow> bytes"
  ContainsBTCHeader :: "bytes \<Rightarrow> string + bool"

text \<open>The calls that leave the monitor, in the order they are made.\<close>

datatype call =
    CallVerifyMultiSig EpochInfo RawCheckpoint
  | CallQueryRawCheckpoint uint64
  | CallQueryInfoForNextEpoch uint64
  | CallContainsBTCHeader bytes
  | GoRunBTCScanner
  | GoRunLivenessChecker
  | CallScannerStop
  | WgWait

subsection \<open>Errors\<close>

text \<open>
  The errors that \<^verbatim>\<open>monitor.go\<close> returns. The two sentinels \<^verbatim>\<open>types.ErrInvalidEpochNum\<close>
  and \<^verbatim>\<open>types.ErrInconsistentLastCommitHash\<close> are wrapped with a message only; the
  other constructors wrap the error of a collaborator (\<^verbatim>\<open>%w\<close>) or an error of
  the monitor itself, but for \<open>QuerierError\<close>, which is the querier's error
  returned as it is (line 198).
\<close>

datatype error =
    ErrInvalidEpochNum
  | InvalidSigOfBTCCheckpoint string
  | FailedToQueryRawCheckpoint string
  | InvalidSigOfBabylonCheckpoint string
  | ErrInconsistentLastCommitHash
  | VerificationFailed uint64 error
  | FailedToQueryEpochInfo uint64 string
  | FailedToUpdateEpochInfo uint64 error
  | QuerierError string
  | HeaderNotOnBabylon bytes

text \<open>\<^verbatim>\<open>sdkerrors.IsOf(err, types.ErrInconsistentLastCommitHash)\<close>: whether the
  sentinel is in the chain of wrapped errors. A collaborator's error is a
  message here, so it never holds the sentinel.\<close>

fun IsOf_ErrInconsistentLastCommitHash :: "error \<Rightarrow> bool" where
  "IsOf_ErrInconsistentLastCommitHash ErrInconsistentLastCommitHash = True"
| "IsOf_ErrInconsistentLastCommitHash (VerificationFailed n e) = IsOf_ErrInconsistentLastCommitHash e"
| "IsOf_ErrInconsistentLastCommitHash (FailedToUpdateEpochInfo n e) = IsOf_ErrInconsistentLastCommitHash e"
| "IsOf_ErrInconsistentLastCommitHash e = False"

subsection \<open>Verification of one checkpoint\<close>

definition GetCurrentEpoch :: "Monitor \<Rightarrow> uint64" where
  "GetCurrentEpoch m = GetEpochNumber (curEpoch m)"

text \<open>\<^verbatim>\<open>VerifyCheckpoint\<close> (lines 149-176): the result, and the calls made.\<close>

definition VerifyCheckpoint ::
  "'h collaborators \<Rightarrow> Monitor \<Rightarrow> RawCheckpoint \<Rightarrow> error option \<times> call list" where
  "VerifyCheckpoint env m btcCkpt =
     (if GetCurrentEpoch m \<noteq> EpochNum btcCkpt then (Some ErrInvalidEpochNum, [])
      else
        (case VerifyMultiSig env (curEpoch m) btcCkpt of
           Some err \<Rightarrow>
             (Some (InvalidSigOfBTCCheckpoint err),
              [CallVerifyMultiSig (curEpoch m) btcCkpt])
         | None \<Rightarrow>
             (case QueryRawCheckpoint env (EpochNum btcCkpt) of
                Inl err \<Rightarrow>
                  (Some (FailedToQueryRawCheckpoint err),
                   [CallVerifyMultiSig (curEpoch m) btcCkpt,
                    CallQueryRawCheckpoint (EpochNum btcCkpt)])
              | Inr bbnCkpt \<Rightarrow>
                  (case VerifyMultiSig env (curEpoch m) (Ckpt bbnCkpt) of
                     Some err \<Rightarrow>
                       (Some (InvalidSigOfBabylonCheckpoint err),
                        [CallVerifyMultiSig (curEpoch m) btcCkpt,
                         CallQueryRawCheckpoint (EpochNum btcCkpt),
                         CallVerifyMultiSig (curEpoch m) (Ckpt bbnCkpt)])
                   | None \<Rightarrow>
                       (if LastCommitHash (Ckpt bbnCkpt) \<noteq> LastCommitHash btcCkpt
                        then Some ErrInconsistentLastCommitHash else None,
                        [CallVerifyMultiSig (curEpoch m) btcCkpt,
                         CallQueryRawCheckpoint (EpochNum btcCkpt),
                         CallVerifyMultiSig (curEpoch m) (Ckpt bbnCkpt)])))))"

text \<open>\<^verbatim>\<open>addCheckpointToCheckList\<close> (lines 178-181).\<close>

definition addCheckpointToCheckList :: "Monitor \<Rightarrow> CheckpointRecord \<Rightarrow> Monitor" where
  "addCheckpointToCheckList m ckpt =
     (let record = NewCheckpointRecord (RawCheckpoint ckpt) (FirstSeenBtcHeight ckpt)
      in m\<lparr>checkpointChecklist := Add record (checkpointChecklist m)\<rparr>)"

text \<open>\<^verbatim>\<open>UpdateEpochInfo\<close> (lines 183-191): the monitor takes the epoch information
  that the query returns as it is.\<close>

definition UpdateEpochInfo ::
  "'h collaborators \<Rightarrow> Monitor \<Rightarrow> uint64 \<Rightarrow> error option \<times> Monitor \<times> call list" where
  "UpdateEpochInfo env m epoch =
     (case QueryInfoForNextEpoch env epoch of
        Inl err \<Rightarrow> (Some (FailedToQueryEpochInfo epoch err), m, [CallQueryInfoForNextEpoch epoch])
      | Inr ei \<Rightarrow> (None, m\<lparr>curEpoch := ei\<rparr>, [CallQueryInfoForNextEpoch epoch]))"

text \<open>\<^verbatim>\<open>handleNewConfirmedCheckpoint\<close> (lines 111-142).\<close>

definition handleNewConfirmedCheckpoint ::
  "'h collaborators \<Rightarrow> Monitor \<Rightarrow> CheckpointRecord \<Rightarrow> error option \<times> Monitor \<times> call list" where
  "handleNewConfirmedCheckpoint env m ckpt =
     (case VerifyCheckpoint env m (RawCheckpoint ckpt) of
        (Some err, cs) \<Rightarrow>
          (if IsOf_ErrInconsistentLastCommitHash err
           then
             (let m1 = (if LivenessChecker (Cfg m) then addCheckpointToCheckList m ckpt else m)
              in (Some (VerificationFailed (GetCurrentEpoch m1) err), m1, cs))
           else (None, m, cs))
      | (None, cs) \<Rightarrow>
          (let m1 = (if LivenessChecker (Cfg m) then addCheckpointToCheckList m ckpt else m);
               nextEpochNum = GetCurrentEpoch m1 + 1
           in (case UpdateEpochInfo env m1 nextEpochNum of
                 (Some err, m2, cs2) \<Rightarrow> (Some (FailedToUpdateEpochInfo nextEpochNum err), m2, cs @ cs2)
               | (None, m2, cs2) \<Rightarrow> (None, m2, cs @ cs2))))"

text \<open>\<^verbatim>\<open>checkHeaderConsistency\<close> and \<^verbatim>\<open>handleNewConfirmedHeader\<close> (lines 107-109,
  193-205): no field of the monitor is written.\<close>

definition checkHeaderConsistency :: "'h collaborators \<Rightarrow> Monitor \<Rightarrow> 'h \<Rightarrow> error option \<times> call list" where
  "checkHeaderConsistency env m header =
     (let btcHeaderHash = BlockHash env header
      in (case ContainsBTCHeader env btcHeaderHash of
            Inl err \<Rightarrow> (Some (QuerierError err), [CallContainsBTCHeader btcHeaderHash])
          | Inr contains \<Rightarrow>
              (if \<not> contains then Some (HeaderNotOnBabylon btcHeaderHash) else None,
               [CallContainsBTCHeader btcHeaderHash])))"

definition handleNewConfirmedHeader :: "'h collaborators \<Rightarrow> Monitor \<Rightarrow> 'h \<Rightarrow> error option \<times> call list" where
  "handleNewConfirmedHeader env m header = checkHeaderConsistency env m header"

subsection \<open>Sorting the validator set\<close>

text \<open>
  \<^verbatim>\<open>GetSortedValSet\<close> (lines 207-222) sorts with Go's \<^verbatim>\<open>sort.Slice\<close> and a
  comparison that panics. Of what it calls outside \<^verbatim>\<open>monitor.go\<close>:
  \<^item> \<^verbatim>\<open>sdk.ValAddressFromBech32\<close>, which returns the address bytes or an error,
    is a parameter;
  \<^item> \<^verbatim>\<open>sdk.BigEndianToUint64\<close> is written out;
  \<^item> \<^verbatim>\<open>sort.Slice\<close> is written out for a slice of at most twelve entries, on
    which the library runs its insertion sort; what it runs on a longer slice
    (\<^verbatim>\<open>pdqsort_func\<close>) is a parameter.
\<close>

datatype panic =
    FailedToParseValidatorAddress string string
  | RuntimePanic
  | CloseOfClosedChannel

record library =
  ValAddressFromBech32 :: "string \<Rightarrow> string + bytes"
  pdqsort_func ::
    "(ValidatorWithBlsKey \<Rightarrow> ValidatorWithBlsKey \<Rightarrow> panic + bool) \<Rightarrow>
       ValidatorWithBlsKey list \<Rightarrow> panic + ValidatorWithBlsKey list"

text \<open>
  \<^verbatim>\<open>sdk.BigEndianToUint64(bz)\<close>: 0 on the empty slice, and otherwise
  \<^verbatim>\<open>binary.BigEndian.Uint64(bz)\<close>, which reads the first eight bytes, the first
  the most significant, and panics (\<open>None\<close>) on fewer than eight. Bytes after
  the eighth are not read.
\<close>

definition BigEndianToUint64 :: "bytes \<Rightarrow> uint64 option" where
  "BigEndianToUint64 bz =
     (if bz = [] then Some 0
      else if length bz < 8 then None
      else Some (foldl (\<lambda>acc b. acc * 256 + ucast b) 0 (take 8 bz)))"

text \<open>The comparison handed to \<^verbatim>\<open>sort.Slice\<close> (lines 208-219), on the two entries
  that the indices \<^verbatim>\<open>i\<close> and \<^verbatim>\<open>j\<close> name.\<close>

definition less_func :: "library \<Rightarrow> ValidatorWithBlsKey \<Rightarrow> ValidatorWithBlsKey \<Rightarrow> panic + bool" where
  "less_func lib vi vj =
     (case ValAddressFromBech32 lib (ValidatorAddress vi) of
        Inl err \<Rightarrow> Inl (FailedToParseValidatorAddress (ValidatorAddress vi) err)
      | Inr addri \<Rightarrow>
          (case ValAddressFromBech32 lib (ValidatorAddress vj) of
             Inl err \<Rightarrow> Inl (FailedToParseValidatorAddress (ValidatorAddress vj) err)
           | Inr addrj \<Rightarrow>
               (case BigEndianToUint64 addri of
                  None \<Rightarrow> Inl RuntimePanic
                | Some ki \<Rightarrow>
                    (case BigEndianToUint64 addrj of
                       None \<Rightarrow> Inl RuntimePanic
                     | Some kj \<Rightarrow> Inr (ki < kj)))))"

text \<open>
  The library's insertion sort,
  \<^verbatim>\<open>for i := a + 1; i < b; i++ { for j := i; j > a && less(j, j-1); j-- { swap(j, j-1) } }\<close>.
  \<open>sink\<close> is the inner loop: the entry \<open>x\<close> at index \<open>j\<close> moves down past
  the entries before it, given nearest first, while it is less than the one
  at \<open>j - 1\<close>.
\<close>

fun sink :: "('a \<Rightarrow> 'a \<Rightarrow> panic + bool) \<Rightarrow> 'a \<Rightarrow> 'a list \<Rightarrow> panic + 'a list" where
  "sink lessFn x [] = Inr [x]"
| "sink lessFn x (y # before) =
     (case lessFn x y of
        Inl p \<Rightarrow> Inl p
      | Inr lt \<Rightarrow>
          (if lt
           then (case sink lessFn x before of
                   Inl p \<Rightarrow> Inl p
                 | Inr r \<Rightarrow> Inr (y # r))
           else Inr (x # y # before)))"

text \<open>The outer loop: \<open>front\<close> is the part of the slice before index \<open>i\<close>, last
  entry first; \<open>rest\<close> is the part from \<open>i\<close> on.\<close>

fun insertionSort_func :: "('a \<Rightarrow> 'a \<Rightarrow> panic + bool) \<Rightarrow> 'a list \<Rightarrow> 'a list \<Rightarrow> panic + 'a list" where
  "insertionSort_func lessFn front [] = Inr (rev front)"
| "insertionSort_func lessFn front (x # rest) =
     (case sink lessFn x front of
        Inl p \<Rightarrow> Inl p
      | Inr front' \<Rightarrow> insertionSort_func lessFn front' rest)"

text \<open>
  \<^verbatim>\<open>sort.Slice\<close>: the library's \<^verbatim>\<open>pdqsort_func\<close> starts with
  \<^verbatim>\<open>if length <= maxInsertion { insertionSort_func(data, a, b); return }\<close>, with
  \<^verbatim>\<open>maxInsertion = 12\<close>. On a longer slice it goes on to choose pivots and
  partition; that part is the parameter, and nothing is said here of the order
  in which it leaves entries with equal keys or of which comparison panics
  first.
\<close>

definition sort_Slice ::
  "library \<Rightarrow> (ValidatorWithBlsKey \<Rightarrow> ValidatorWithBlsKey \<Rightarrow> panic + bool) \<Rightarrow>
     ValidatorWithBlsKey list \<Rightarrow> panic + ValidatorWithBlsKey list" where
  "sort_Slice lib lessFn xs =
     (if length xs \<le> 12 then insertionSort_func lessFn [] xs
      else pdqsort_func lib lessFn xs)"

definition GetSortedValSet :: "library \<Rightarrow> ValidatorWithBlsKeySet \<Rightarrow> panic + ValidatorWithBlsKeySet" where
  "GetSortedValSet lib valSet =
     (case sort_Slice lib (less_func lib) (ValSet valSet) of
        Inl p \<Rightarrow> Inl p
      | Inr sortedSlice \<Rightarrow> Inr (valSet\<lparr>ValSet := sortedSlice\<rparr>))"

text \<open>The number that the comparison orders an entry by: the first eight bytes
  of the parsed address as a big-endian unsigned integer; \<open>None\<close> when the
  address does not parse or has one to seven bytes.\<close>

definition addrKey :: "library \<Rightarrow> ValidatorWithBlsKey \<Rightarrow> uint64 option" where
  "addrKey lib v =
     (case ValAddressFromBech32 lib (ValidatorAddress v) of
        Inl err \<Rightarrow> None
      | Inr addr \<Rightarrow> BigEndianToUint64 addr)"

text \<open>\<open>key_le lib a b\<close>: both addresses have a number, and that of \<open>a\<close> is at
  most that of \<open>b\<close>.\<close>

definition key_le :: "library \<Rightarrow> ValidatorWithBlsKey \<Rightarrow> ValidatorWithBlsKey \<Rightarrow> bool" where
  "key_le lib a b =
     (case addrKey lib a of
        None \<Rightarrow> False
      | Some ka \<Rightarrow> (case addrKey lib b of None \<Rightarrow> False | Some kb \<Rightarrow> ka \<le> kb))"



text \<open>
  What is assumed of the library's sort on a slice of more than twelve
  entries, with the comparison above: a result is a permutation of the slice in
  the order of the comparison; a slice that is in that order already is
  returned as it is (the library first looks for this, with a partial insertion
  sort that moves nothing); and there is a result when every address has a
  number. The insertion sort has all three on every slice, as is proved below.
\<close>

definition library_sorts :: "library \<Rightarrow> bool" where
  "library_sorts lib =
     (\<forall>xs. 12 < length xs \<longrightarrow>
        (\<forall>ys. pdqsort_func lib (less_func lib) xs = Inr ys \<longrightarrow>
           mset ys = mset xs \<and> sorted_wrt (key_le lib) ys) \<and>
        (sorted_wrt (key_le lib) xs \<longrightarrow> pdqsort_func lib (less_func lib) xs = Inr xs) \<and>
        ((\<forall>v\<in>set xs. addrKey lib v \<noteq> None) \<longrightarrow>
           (\<exists>ys. pdqsort_func lib (less_func lib) xs = Inr ys)))"

text \<open>\<^verbatim>\<open>New\<close> (lines 40-57): the genesis epoch is epoch 0 with the sorted genesis
  validator set; a panic of the sort leaves no monitor.\<close>

definition New :: "library \<Rightarrow> MonitorConfig \<Rightarrow> ValidatorWithBlsKeySet \<Rightarrow> panic + Monitor" where
  "New lib cfg genesisValSet =
     (case GetSortedValSet lib genesisValSet of
        Inl p \<Rightarrow> Inl p
      | Inr sortedGenesisValSet \<Rightarrow>
          Inr \<lparr>Cfg = cfg,
               curEpoch = NewEpochInfo 0 sortedGenesisValSet,
               checkpointChecklist = NewCheckpointsBookkeeper,
               started = False,
               quit = False\<rparr>)"

subsection \<open>The event loop, Start and Stop\<close>

text \<open>The case of the \<^verbatim>\<open>select\<close> (lines 80-95) that fires in one pass of the loop:
  the receive from \<^verbatim>\<open>m.quit\<close>, a header from the scanner's header channel, or
  a checkpoint record from its checkpoint channel. Which case fires is the
  choice of the Go runtime and of the scanner.\<close>

datatype 'h selected =
    FromQuit
  | FromHeadersChan 'h
  | FromCheckpointsChan CheckpointRecord

text \<open>
  One pass through the body of the loop. The receive from \<^verbatim>\<open>m.quit\<close> can fire
  only when the channel is closed (\<open>None\<close>: the case cannot fire). The error of
  a handler is logged and dropped; the \<^verbatim>\<open>break\<close> of line 88 leaves the
  \<^verbatim>\<open>select\<close>, not the loop.
\<close>

definition selectCase ::
  "'h collaborators \<Rightarrow> Monitor \<Rightarrow> 'h selected \<Rightarrow> (Monitor \<times> call list) option" where
  "selectCase env m c =
     (case c of
        FromQuit \<Rightarrow> (if quit m then Some (m\<lparr>started := False\<rparr>, []) else None)
      | FromHeadersChan header \<Rightarrow>
          (case handleNewConfirmedHeader env m header of (err, cs) \<Rightarrow> Some (m, cs))
      | FromCheckpointsChan ckpt \<Rightarrow>
          (case handleNewConfirmedCheckpoint env m ckpt of (err, m', cs) \<Rightarrow> Some (m', cs)))"

text \<open>
  The loop \<^verbatim>\<open>for m.started.Load() { select { ... } }\<close> (lines 79-96), run on the
  cases that fire, in their order. The result is the monitor, the calls made and
  the cases not consumed: the loop has exited when \<open>started\<close> is false in the
  result, and otherwise waits in the \<^verbatim>\<open>select\<close>.
\<close>

fun eventLoop ::
  "'h collaborators \<Rightarrow> Monitor \<Rightarrow> 'h selected list \<Rightarrow> Monitor \<times> call list \<times> 'h selected list" where
  "eventLoop env m [] = (m, [], [])"
| "eventLoop env m (c # cs) =
     (if \<not> started m then (m, [], c # cs)
      else
        (case selectCase env m c of
           None \<Rightarrow> (m, [], c # cs)
         | Some (m', out) \<Rightarrow>
             (case eventLoop env m' cs of
                (m'', out', rest) \<Rightarrow> (m'', out @ out', rest))))"

text \<open>\<^verbatim>\<open>Start\<close> (lines 60-100), on the cases that fire while it runs. The two
  goroutines it launches and \<^verbatim>\<open>m.wg.Wait()\<close> are calls of the trace. The call
  has \<open>Returned\<close>, or is \<open>Waiting\<close> in the \<^verbatim>\<open>select\<close> for the next case.\<close>

datatype progress = Returned | Waiting

definition Start ::
  "'h collaborators \<Rightarrow> Monitor \<Rightarrow> 'h selected list \<Rightarrow>
     Monitor \<times> call list \<times> 'h selected list \<times> progress" where
  "Start env m cs =
     (if started m then (m, [], cs, Returned)
      else
        (let m1 = m\<lparr>started := True\<rparr>;
             launched = GoRunBTCScanner # (if LivenessChecker (Cfg m1) then [GoRunLivenessChecker] else [])
         in (case eventLoop env m1 cs of
               (m2, out, rest) \<Rightarrow>
                 (if started m2 then (m2, launched @ out, rest, Waiting)
                  else (m2, launched @ out @ [WgWait], rest, Returned)))))"

text \<open>\<^verbatim>\<open>Stop\<close> (lines 224-228): \<^verbatim>\<open>close(m.quit)\<close>, which panics on a closed
  channel, then \<^verbatim>\<open>m.BTCScanner.Stop()\<close>.\<close>

definition Stop :: "Monitor \<Rightarrow> panic + Monitor \<times> call list" where
  "Stop m =
     (if quit m then Inl CloseOfClosedChannel
      else Inr (m\<lparr>quit := True\<rparr>, [CallScannerStop]))"

subsection \<open>Start and Stop in two goroutines\<close>

text \<open>
  \<^verbatim>\<open>Start\<close> blocks in its loop, so \<^verbatim>\<open>Stop\<close> is called from another goroutine.
  The system has the monitor, the place of the goroutine that runs the loop, the
  place of the goroutine that runs \<^verbatim>\<open>Stop\<close>, and whether the scanner's own stop
  sequence has completed. An action is one pass of the loop (the test of line 79
  and, when it holds, the \<^verbatim>\<open>select\<close>) or the next statement of \<^verbatim>\<open>Stop\<close>; a
  schedule is a list of actions. \<^verbatim>\<open>m.BTCScanner.Stop()\<close> is one statement that
  returns.
\<close>

datatype loop_at = InLoop | LoopExited

datatype stop_at = AtCloseQuit | AtScannerStop | StopReturned

record system =
  mon :: Monitor
  loopAt :: loop_at
  stopAt :: stop_at
  scannerStopped :: bool

datatype 'h action = LoopPass "'h selected" | StopStatement

definition step :: "'h collaborators \<Rightarrow> 'h action \<Rightarrow> system \<Rightarrow> system option" where
  "step env a s =
     (case a of
        StopStatement \<Rightarrow>
          (case stopAt s of
             AtCloseQuit \<Rightarrow>
               (if quit (mon s) then None
                else Some (s\<lparr>mon := (mon s)\<lparr>quit := True\<rparr>, stopAt := AtScannerStop\<rparr>))
           | AtScannerStop \<Rightarrow> Some (s\<lparr>scannerStopped := True, stopAt := StopReturned\<rparr>)
           | StopReturned \<Rightarrow> None)
      | LoopPass c \<Rightarrow>
          (case loopAt s of
             LoopExited \<Rightarrow> None
           | InLoop \<Rightarrow>
               (if \<not> started (mon s) then Some (s\<lparr>loopAt := LoopExited\<rparr>)
                else
                  (case selectCase env (mon s) c of
                     None \<Rightarrow> None
                   | Some (m', out) \<Rightarrow> Some (s\<lparr>mon := m'\<rparr>)))))"

text \<open>A schedule runs while each of its actions can be taken. \<^verbatim>\<open>close\<close> on
  the closed channel is a panic, which ends the run as well.\<close>

fun run :: "'h collaborators \<Rightarrow> 'h action list \<Rightarrow> system \<Rightarrow> system option" where
  "run env [] s = Some s"
| "run env (a # as) s =
     (case step env a s of
        None \<Rightarrow> None
      | Some s' \<Rightarrow> run env as s')"

text \<open>
  What holds of every system that a schedule can reach from a running loop and
  a call of \<^verbatim>\<open>Stop\<close> that has not yet closed the channel: past its first
  statement \<^verbatim>\<open>Stop\<close> has closed the channel; once it has returned the scanner
  has stopped; \<open>started\<close> is cleared only with the channel closed; and the loop
  exits only with \<open>started\<close> cleared.
\<close>

definition consistent :: "system \<Rightarrow> bool" where
  "consistent s =
     ((stopAt s \<noteq> AtCloseQuit \<longrightarrow> quit (mon s)) \<and>
      (stopAt s = StopReturned \<longrightarrow> scannerStopped s) \<and>
      (\<not> started (mon s) \<longrightarrow> quit (mon s)) \<and>
      (loopAt s = LoopExited \<longrightarrow> \<not> started (mon s)))"

subsection \<open>A concrete monitor\<close>

text \<open>
  The inputs on which the theorems below are run. The monitor is at epoch 7 with
  liveness tracking on. A signature is valid when it is the byte 1; Babylon
  holds, for epoch 7 only, a signed checkpoint with commit hash \<open>[170]\<close>, and
  answers the query for the information of epoch 8 only. The address parser
  knows four addresses of ten bytes, two of which have the same first eight
  bytes; the library's sort of a longer slice is the insertion sort again.
\<close>

definition demoEpoch :: EpochInfo where
  "demoEpoch = NewEpochInfo 7 \<lparr>ValSet = []\<rparr>"

definition demoMonitor :: Monitor where
  "demoMonitor =
     \<lparr>Cfg = \<lparr>LivenessChecker = True\<rparr>,
      curEpoch = demoEpoch,
      checkpointChecklist = NewCheckpointsBookkeeper,
      started = True,
      quit = False\<rparr>"

definition demoCkpt :: "uint64 \<Rightarrow> bytes \<Rightarrow> bytes \<Rightarrow> RawCheckpoint" where
  "demoCkpt n h sig = \<lparr>EpochNum = n, LastCommitHash = h, Bitmap = [1], BlsMultiSig = sig\<rparr>"

definition demoRecord :: "RawCheckpoint \<Rightarrow> CheckpointRecord" where
  "demoRecord c = \<lparr>RawCheckpoint = c, FirstSeenBtcHeight = 100\<rparr>"

definition demoEnv :: "nat collaborators" where
  "demoEnv =
     \<lparr>VerifyMultiSig = (\<lambda>ei c. if BlsMultiSig c = [1] then None else Some ''invalid multisig''),
      QueryRawCheckpoint =
        (\<lambda>n. if n = 7 then Inr \<lparr>Ckpt = demoCkpt 7 [170] [1]\<rparr> else Inl ''rpc error''),
      QueryInfoForNextEpoch =
        (\<lambda>n. if n = 8 then Inr (NewEpochInfo 8 \<lparr>ValSet = []\<rparr>) else Inl ''rpc error''),
      BlockHash = (\<lambda>h. [of_nat h]),
      ContainsBTCHeader = (\<lambda>h. Inr (h = [1]))\<rparr>"

definition demoSystem :: system where
  "demoSystem = \<lparr>mon = demoMonitor, loopAt = InLoop, stopAt = AtCloseQuit, scannerStopped = False\<rparr>"

definition demoAddresses :: "(string \<times> bytes) list" where
  "demoAddresses =
     [(''val-a'', [0, 0, 0, 0, 0, 0, 0, 1, 9, 9]),
      (''val-a2'', [0, 0, 0, 0, 0, 0, 0, 1, 2, 2]),
      (''val-b'', [0, 0, 0, 0, 0, 0, 0, 2, 9, 9]),
      (''val-c'', [0, 0, 0, 0, 0, 0, 1, 0, 9, 9])]"

definition demoLib :: library where
  "demoLib =
     \<lparr>ValAddressFromBech32 =
        (\<lambda>s. case map_of demoAddresses s of
               None \<Rightarrow> Inl ''decoding bech32 failed''
             | Some bz \<Rightarrow> Inr bz),
      pdqsort_func = (\<lambda>lessFn xs. insertionSort_func lessFn [] xs)\<rparr>"

definition demoValidator :: "string \<Rightarrow> ValidatorWithBlsKey" where
  "demoValidator a = \<lparr>ValidatorAddress = a, BlsPubKey = [], VotingPower = 1\<rparr>"



lemmas demo_defs =
  demoEnv_def demoMonitor_def demoEpoch_def demoCkpt_def demoRecord_def
  NewEpochInfo_def GetEpochNumber_def GetCurrentEpoch_def NewCheckpointsBookkeeper_def

section \<open>Verification of one checkpoint\<close>

text \<open>The result of \<^verbatim>\<open>VerifyCheckpoint\<close> without the calls: the five checks in
  their order.\<close>

lemma VerifyCheckpoint_result_cases:
  "fst (VerifyCheckpoint env m c) =
     (if GetCurrentEpoch m \<noteq> EpochNum c then Some ErrInvalidEpochNum
      else case VerifyMultiSig env (curEpoch m) c of
             Some err \<Rightarrow> Some (InvalidSigOfBTCCheckpoint err)
           | None \<Rightarrow>
               (case QueryRawCheckpoint env (EpochNum c) of
                  Inl err \<Rightarrow> Some (FailedToQueryRawCheckpoint err)
                | Inr bbn \<Rightarrow>
                    (case VerifyMultiSig env (curEpoch m) (Ckpt bbn) of
                       Some err \<Rightarrow> Some (InvalidSigOfBabylonCheckpoint err)
                     | None \<Rightarrow>
                         if LastCommitHash (Ckpt bbn) \<noteq> LastCommitHash c
                         then Some ErrInconsistentLastCommitHash else None)))"
  by (simp add: VerifyCheckpoint_def split: option.split sum.split)

lemma demo_verify_ok:
  "fst (VerifyCheckpoint demoEnv demoMonitor (demoCkpt 7 [170] [1])) = None"
  by (simp add: VerifyCheckpoint_result_cases demo_defs)

lemma demo_verify_fork:
  "fst (VerifyCheckpoint demoEnv demoMonitor (demoCkpt 7 [187] [1])) = Some ErrInconsistentLastCommitHash"
  by (simp add: VerifyCheckpoint_result_cases demo_defs)

lemma demo_verify_badsig:
  "fst (VerifyCheckpoint demoEnv demoMonitor (demoCkpt 7 [170] [0])) =
     Some (InvalidSigOfBTCCheckpoint ''invalid multisig'')"
  by (simp add: VerifyCheckpoint_result_cases demo_defs)

lemma demo_record [simp]: "RawCheckpoint (demoRecord c) = c"
  by (simp add: demoRecord_def)

text \<open>
  Claim C1. \<^verbatim>\<open>VerifyCheckpoint\<close> returns \<^verbatim>\<open>nil\<close> exactly when the candidate's epoch
  number is the current epoch, the signature check passes on the candidate, the
  query for Babylon's checkpoint of that epoch answers, the signature check
  passes on the answer, and the two commit hashes are equal. With the same
  conditions but different hashes, and only then, it returns
  \<^verbatim>\<open>ErrInconsistentLastCommitHash\<close>.
\<close>

theorem VerifyCheckpoint_success_iff:
  "(fst (VerifyCheckpoint env m c) = None) =
     (EpochNum c = GetCurrentEpoch m \<and>
      VerifyMultiSig env (curEpoch m) c = None \<and>
      (case QueryRawCheckpoint env (EpochNum c) of
         Inl err \<Rightarrow> False
       | Inr bbn \<Rightarrow>
           VerifyMultiSig env (curEpoch m) (Ckpt bbn) = None \<and>
           LastCommitHash (Ckpt bbn) = LastCommitHash c))
   \<and>
   (fst (VerifyCheckpoint env m c) = Some ErrInconsistentLastCommitHash) =
     (EpochNum c = GetCurrentEpoch m \<and>
      VerifyMultiSig env (curEpoch m) c = None \<and>
      (case QueryRawCheckpoint env (EpochNum c) of
         Inl err \<Rightarrow> False
       | Inr bbn \<Rightarrow>
           VerifyMultiSig env (curEpoch m) (Ckpt bbn) = None \<and>
           LastCommitHash (Ckpt bbn) \<noteq> LastCommitHash c))"
  unfolding VerifyCheckpoint_result_cases
  by (auto split: option.split sum.split)

theorem VerifyCheckpoint_success_iff_witness:
  "fst (VerifyCheckpoint demoEnv demoMonitor (demoCkpt 7 [170] [1])) = None \<and>
   fst (VerifyCheckpoint demoEnv demoMonitor (demoCkpt 7 [187] [1])) = Some ErrInconsistentLastCommitHash"
  using VerifyCheckpoint_success_iff [of demoEnv demoMonitor "demoCkpt 7 [170] [1]"]
    VerifyCheckpoint_success_iff [of demoEnv demoMonitor "demoCkpt 7 [187] [1]"]
  by (simp add: demo_defs)

text \<open>
  Claim C4. \<^verbatim>\<open>VerifyCheckpoint\<close> returns \<^verbatim>\<open>ErrInvalidEpochNum\<close> exactly when the
  candidate's epoch number differs from the current epoch; the test comes
  first, so on a mismatch the trace of calls is empty: no signature is verified
  and Babylon is not queried.
\<close>

theorem VerifyCheckpoint_epoch_first:
  "(fst (VerifyCheckpoint env m c) = Some ErrInvalidEpochNum) = (EpochNum c \<noteq> GetCurrentEpoch m)
   \<and> (EpochNum c \<noteq> GetCurrentEpoch m \<longrightarrow> snd (VerifyCheckpoint env m c) = [])"
proof
  show "(fst (VerifyCheckpoint env m c) = Some ErrInvalidEpochNum) = (EpochNum c \<noteq> GetCurrentEpoch m)"
    unfolding VerifyCheckpoint_result_cases by (auto split: option.split sum.split)
  show "EpochNum c \<noteq> GetCurrentEpoch m \<longrightarrow> snd (VerifyCheckpoint env m c) = []"
    by (auto simp: VerifyCheckpoint_def)
qed

theorem VerifyCheckpoint_epoch_first_witness:
  "fst (VerifyCheckpoint demoEnv demoMonitor (demoCkpt 8 [170] [1])) = Some ErrInvalidEpochNum \<and>
   snd (VerifyCheckpoint demoEnv demoMonitor (demoCkpt 8 [170] [1])) = [] \<and>
   fst (VerifyCheckpoint demoEnv demoMonitor (demoCkpt 7 [170] [0])) \<noteq> Some ErrInvalidEpochNum"
  using VerifyCheckpoint_epoch_first [of demoEnv demoMonitor "demoCkpt 8 [170] [1]"]
    VerifyCheckpoint_epoch_first [of demoEnv demoMonitor "demoCkpt 7 [170] [0]"]
  by (simp add: demo_defs)

section \<open>One checkpoint event\<close>

text \<open>An error of \<^verbatim>\<open>VerifyCheckpoint\<close> holds the sentinel only when it is the
  sentinel.\<close>

lemma VerifyCheckpoint_not_wrapped:
  "fst (VerifyCheckpoint env m c) = Some err \<Longrightarrow>
     IsOf_ErrInconsistentLastCommitHash err = (err = ErrInconsistentLastCommitHash)"
  by (auto simp: VerifyCheckpoint_def split: if_splits option.splits sum.splits)

lemma GetCurrentEpoch_addCheckpointToCheckList [simp]:
  "GetCurrentEpoch (addCheckpointToCheckList m ckpt) = GetCurrentEpoch m"
  by (simp add: GetCurrentEpoch_def addCheckpointToCheckList_def)

lemma curEpoch_addCheckpointToCheckList [simp]:
  "curEpoch (addCheckpointToCheckList m ckpt) = curEpoch m"
  by (simp add: addCheckpointToCheckList_def)

lemma checklist_addCheckpointToCheckList [simp]:
  "checkpointChecklist (addCheckpointToCheckList m ckpt) = checkpointChecklist m @ [ckpt]"
  by (simp add: addCheckpointToCheckList_def Add_def NewCheckpointRecord_def)

text \<open>The monitor after one checkpoint event, by the result of the verification.\<close>

lemma handle_monitor:
  "fst (snd (handleNewConfirmedCheckpoint env m ckpt)) =
     (case fst (VerifyCheckpoint env m (RawCheckpoint ckpt)) of
        Some err \<Rightarrow>
          (if err = ErrInconsistentLastCommitHash \<and> LivenessChecker (Cfg m)
           then addCheckpointToCheckList m ckpt else m)
      | None \<Rightarrow>
          (let m1 = (if LivenessChecker (Cfg m) then addCheckpointToCheckList m ckpt else m)
           in case QueryInfoForNextEpoch env (GetCurrentEpoch m + 1) of
                Inl err \<Rightarrow> m1
              | Inr ei \<Rightarrow> m1\<lparr>curEpoch := ei\<rparr>))"
proof (cases "VerifyCheckpoint env m (RawCheckpoint ckpt)")
  case (Pair v cs)
  show ?thesis
  proof (cases v)
    case None
    with Pair show ?thesis
      by (simp add: handleNewConfirmedCheckpoint_def UpdateEpochInfo_def Let_def split: sum.split)
  next
    case (Some err)
    with Pair have "IsOf_ErrInconsistentLastCommitHash err = (err = ErrInconsistentLastCommitHash)"
      using VerifyCheckpoint_not_wrapped [of env m "RawCheckpoint ckpt" err] by simp
    with Pair Some show ?thesis
      by (simp add: handleNewConfirmedCheckpoint_def Let_def)
  qed
qed

text \<open>The error that the handler returns, by the result of the verification.\<close>

lemma handle_result:
  "fst (handleNewConfirmedCheckpoint env m ckpt) =
     (case fst (VerifyCheckpoint env m (RawCheckpoint ckpt)) of
        Some err \<Rightarrow>
          (if err = ErrInconsistentLastCommitHash
           then Some (VerificationFailed (GetCurrentEpoch m) err) else None)
      | None \<Rightarrow>
          (case QueryInfoForNextEpoch env (GetCurrentEpoch m + 1) of
             Inl err \<Rightarrow>
               Some (FailedToUpdateEpochInfo (GetCurrentEpoch m + 1)
                       (FailedToQueryEpochInfo (GetCurrentEpoch m + 1) err))
           | Inr ei \<Rightarrow> None))"
proof (cases "VerifyCheckpoint env m (RawCheckpoint ckpt)")
  case (Pair v cs)
  show ?thesis
  proof (cases v)
    case None
    with Pair show ?thesis
      by (simp add: handleNewConfirmedCheckpoint_def UpdateEpochInfo_def Let_def split: sum.split)
  next
    case (Some err)
    with Pair have "IsOf_ErrInconsistentLastCommitHash err = (err = ErrInconsistentLastCommitHash)"
      using VerifyCheckpoint_not_wrapped [of env m "RawCheckpoint ckpt" err] by simp
    with Pair Some show ?thesis
      by (simp add: handleNewConfirmedCheckpoint_def Let_def)
  qed
qed

lemma handle_started_quit:
  "started (fst (snd (handleNewConfirmedCheckpoint env m ckpt))) = started m \<and>
   quit (fst (snd (handleNewConfirmedCheckpoint env m ckpt))) = quit m"
  unfolding handle_monitor
  by (simp add: Let_def addCheckpointToCheckList_def split: option.split sum.split)

lemma next_epoch_unat:
  "(n :: uint64) < 0xFFFFFFFFFFFFFFFF \<Longrightarrow> unat (n + 1) = unat n + 1"
proof -
  assume "n < 0xFFFFFFFFFFFFFFFF"
  then have "unat n + unat (1 :: uint64) < 2 ^ LENGTH(64)"
    by (simp add: word_less_nat_alt)
  then have "unat (n + 1) = unat n + unat (1 :: uint64)"
    by (simp only: unat_add_lem)
  then show ?thesis by simp
qed

text \<open>
  Claim C2. After \<^verbatim>\<open>handleNewConfirmedCheckpoint\<close> has processed one event: when
  the verification succeeded and the query for the next epoch answered with the
  information of that epoch, the current epoch number is the old one plus 1;
  when the verification failed, or that query failed, the current epoch is
  unchanged. With a querier that answers for the epoch it is asked for, the new
  number is the old one or the old one plus 1, so (short of \<^verbatim>\<open>uint64\<close> overflow,
  where the sum wraps to 0) it never decreases and never skips a number.
\<close>

theorem epoch_after_checkpoint:
  "(fst (VerifyCheckpoint env m (RawCheckpoint ckpt)) = None \<and>
    QueryInfoForNextEpoch env (GetCurrentEpoch m + 1) = Inr ei \<and>
    GetEpochNumber ei = GetCurrentEpoch m + 1 \<longrightarrow>
      GetCurrentEpoch (fst (snd (handleNewConfirmedCheckpoint env m ckpt))) = GetCurrentEpoch m + 1)
   \<and>
   (fst (VerifyCheckpoint env m (RawCheckpoint ckpt)) \<noteq> None \<or>
    isl (QueryInfoForNextEpoch env (GetCurrentEpoch m + 1)) \<longrightarrow>
      curEpoch (fst (snd (handleNewConfirmedCheckpoint env m ckpt))) = curEpoch m)
   \<and>
   ((\<forall>e. QueryInfoForNextEpoch env (GetCurrentEpoch m + 1) = Inr e \<longrightarrow>
          GetEpochNumber e = GetCurrentEpoch m + 1) \<longrightarrow>
      (GetCurrentEpoch (fst (snd (handleNewConfirmedCheckpoint env m ckpt))) = GetCurrentEpoch m \<or>
       GetCurrentEpoch (fst (snd (handleNewConfirmedCheckpoint env m ckpt))) = GetCurrentEpoch m + 1) \<and>
      (GetCurrentEpoch m < 0xFFFFFFFFFFFFFFFF \<longrightarrow>
         unat (GetCurrentEpoch m) \<le> unat (GetCurrentEpoch (fst (snd (handleNewConfirmedCheckpoint env m ckpt)))) \<and>
         unat (GetCurrentEpoch (fst (snd (handleNewConfirmedCheckpoint env m ckpt)))) \<le> unat (GetCurrentEpoch m) + 1))"
proof (intro conjI impI)
  assume "fst (VerifyCheckpoint env m (RawCheckpoint ckpt)) = None \<and>
    QueryInfoForNextEpoch env (GetCurrentEpoch m + 1) = Inr ei \<and>
    GetEpochNumber ei = GetCurrentEpoch m + 1"
  then show "GetCurrentEpoch (fst (snd (handleNewConfirmedCheckpoint env m ckpt))) = GetCurrentEpoch m + 1"
    unfolding handle_monitor by (simp add: Let_def GetCurrentEpoch_def)
next
  assume "fst (VerifyCheckpoint env m (RawCheckpoint ckpt)) \<noteq> None \<or>
    isl (QueryInfoForNextEpoch env (GetCurrentEpoch m + 1))"
  then show "curEpoch (fst (snd (handleNewConfirmedCheckpoint env m ckpt))) = curEpoch m"
    unfolding handle_monitor by (auto simp: Let_def split: option.split sum.split)
next
  assume q: "\<forall>e. QueryInfoForNextEpoch env (GetCurrentEpoch m + 1) = Inr e \<longrightarrow>
          GetEpochNumber e = GetCurrentEpoch m + 1"
  then show two: "GetCurrentEpoch (fst (snd (handleNewConfirmedCheckpoint env m ckpt))) = GetCurrentEpoch m \<or>
       GetCurrentEpoch (fst (snd (handleNewConfirmedCheckpoint env m ckpt))) = GetCurrentEpoch m + 1"
    unfolding handle_monitor by (auto simp: Let_def GetCurrentEpoch_def split: option.split sum.split)
  assume "GetCurrentEpoch m < 0xFFFFFFFFFFFFFFFF"
  then have "unat (GetCurrentEpoch m + 1) = unat (GetCurrentEpoch m) + 1" by (rule next_epoch_unat)
  with two show "unat (GetCurrentEpoch m) \<le> unat (GetCurrentEpoch (fst (snd (handleNewConfirmedCheckpoint env m ckpt))))"
    by auto
  from \<open>unat (GetCurrentEpoch m + 1) = unat (GetCurrentEpoch m) + 1\<close> two
  show "unat (GetCurrentEpoch (fst (snd (handleNewConfirmedCheckpoint env m ckpt)))) \<le> unat (GetCurrentEpoch m) + 1"
    by auto
qed

theorem epoch_after_checkpoint_witness:
  "GetCurrentEpoch demoMonitor = 7 \<and>
   GetCurrentEpoch (fst (snd (handleNewConfirmedCheckpoint demoEnv demoMonitor
       (demoRecord (demoCkpt 7 [170] [1]))))) = 8 \<and>
   curEpoch (fst (snd (handleNewConfirmedCheckpoint demoEnv demoMonitor
       (demoRecord (demoCkpt 7 [187] [1]))))) = curEpoch demoMonitor \<and>
   unat (GetCurrentEpoch (fst (snd (handleNewConfirmedCheckpoint demoEnv demoMonitor
       (demoRecord (demoCkpt 7 [170] [0])))))) \<le> 8"
proof -
  have e: "GetCurrentEpoch demoMonitor = 7" by (simp add: demo_defs)
  have q: "QueryInfoForNextEpoch demoEnv (GetCurrentEpoch demoMonitor + 1) = Inr (NewEpochInfo 8 \<lparr>ValSet = []\<rparr>)"
    by (simp add: demo_defs)
  have n: "GetEpochNumber (NewEpochInfo 8 \<lparr>ValSet = []\<rparr>) = GetCurrentEpoch demoMonitor + 1"
    by (simp add: demo_defs)
  from epoch_after_checkpoint [of demoEnv demoMonitor "demoRecord (demoCkpt 7 [170] [1])" "NewEpochInfo 8 \<lparr>ValSet = []\<rparr>"]
    demo_verify_ok q n e
  have 1: "GetCurrentEpoch (fst (snd (handleNewConfirmedCheckpoint demoEnv demoMonitor
       (demoRecord (demoCkpt 7 [170] [1]))))) = 8" by simp
  from epoch_after_checkpoint [of demoEnv demoMonitor "demoRecord (demoCkpt 7 [187] [1])" "NewEpochInfo 8 \<lparr>ValSet = []\<rparr>"]
    demo_verify_fork
  have 2: "curEpoch (fst (snd (handleNewConfirmedCheckpoint demoEnv demoMonitor
       (demoRecord (demoCkpt 7 [187] [1]))))) = curEpoch demoMonitor" by simp
  have c: "\<forall>e. QueryInfoForNextEpoch demoEnv (GetCurrentEpoch demoMonitor + 1) = Inr e \<longrightarrow>
          GetEpochNumber e = GetCurrentEpoch demoMonitor + 1"
    using q n by simp
  have b: "GetCurrentEpoch demoMonitor < 0xFFFFFFFFFFFFFFFF" using e by simp
  from epoch_after_checkpoint [of demoEnv demoMonitor "demoRecord (demoCkpt 7 [170] [0])" "NewEpochInfo 8 \<lparr>ValSet = []\<rparr>"]
    c b e
  have 3: "unat (GetCurrentEpoch (fst (snd (handleNewConfirmedCheckpoint demoEnv demoMonitor
       (demoRecord (demoCkpt 7 [170] [0])))))) \<le> 8" by simp
  from e 1 2 3 show ?thesis by simp
qed

text \<open>
  Claim C3. The event's record is appended to the checklist exactly when
  liveness tracking is enabled and the verification returned \<^verbatim>\<open>nil\<close> or
  \<^verbatim>\<open>ErrInconsistentLastCommitHash\<close>; in every other case the checklist is
  unchanged.
\<close>

theorem checklist_appended_iff:
  "checkpointChecklist (fst (snd (handleNewConfirmedCheckpoint env m ckpt))) =
     (if LivenessChecker (Cfg m) \<and>
         (fst (VerifyCheckpoint env m (RawCheckpoint ckpt)) = None \<or>
          fst (VerifyCheckpoint env m (RawCheckpoint ckpt)) = Some ErrInconsistentLastCommitHash)
      then checkpointChecklist m @ [ckpt]
      else checkpointChecklist m)"
  unfolding handle_monitor
  by (simp add: Let_def split: option.split sum.split)

theorem checklist_appended_iff_witness:
  "checkpointChecklist (fst (snd (handleNewConfirmedCheckpoint demoEnv demoMonitor
       (demoRecord (demoCkpt 7 [187] [1]))))) = [demoRecord (demoCkpt 7 [187] [1])] \<and>
   checkpointChecklist (fst (snd (handleNewConfirmedCheckpoint demoEnv demoMonitor
       (demoRecord (demoCkpt 7 [170] [1]))))) = [demoRecord (demoCkpt 7 [170] [1])] \<and>
   checkpointChecklist (fst (snd (handleNewConfirmedCheckpoint demoEnv demoMonitor
       (demoRecord (demoCkpt 7 [170] [0]))))) = []"
  using checklist_appended_iff [of demoEnv demoMonitor "demoRecord (demoCkpt 7 [187] [1])"]
    checklist_appended_iff [of demoEnv demoMonitor "demoRecord (demoCkpt 7 [170] [1])"]
    checklist_appended_iff [of demoEnv demoMonitor "demoRecord (demoCkpt 7 [170] [0])"]
  by (simp add: demo_verify_ok demo_verify_fork demo_verify_badsig)
     (simp add: demoMonitor_def NewCheckpointsBookkeeper_def)

text \<open>
  Claim C10. \<^verbatim>\<open>handleNewConfirmedCheckpoint\<close> returns an error exactly when the
  verification returned \<^verbatim>\<open>ErrInconsistentLastCommitHash\<close>, or the verification
  succeeded and the query for the next epoch's information failed. For every
  other error of the verification it returns \<^verbatim>\<open>nil\<close>, as it does on success.
\<close>

theorem handler_error_iff:
  "(fst (handleNewConfirmedCheckpoint env m ckpt) \<noteq> None) =
     (fst (VerifyCheckpoint env m (RawCheckpoint ckpt)) = Some ErrInconsistentLastCommitHash \<or>
      fst (VerifyCheckpoint env m (RawCheckpoint ckpt)) = None \<and>
      isl (QueryInfoForNextEpoch env (GetCurrentEpoch m + 1)))
   \<and>
   (\<forall>err. fst (VerifyCheckpoint env m (RawCheckpoint ckpt)) = Some err \<and>
          err \<noteq> ErrInconsistentLastCommitHash \<longrightarrow>
          fst (handleNewConfirmedCheckpoint env m ckpt) = None)"
  unfolding handle_result
  by (auto split: option.split sum.split)

theorem handler_error_iff_witness:
  "fst (handleNewConfirmedCheckpoint demoEnv demoMonitor (demoRecord (demoCkpt 7 [187] [1]))) \<noteq> None \<and>
   fst (handleNewConfirmedCheckpoint demoEnv demoMonitor (demoRecord (demoCkpt 7 [170] [0]))) = None \<and>
   fst (handleNewConfirmedCheckpoint demoEnv demoMonitor (demoRecord (demoCkpt 7 [170] [1]))) = None"
  using handler_error_iff [of demoEnv demoMonitor "demoRecord (demoCkpt 7 [187] [1])"]
    handler_error_iff [of demoEnv demoMonitor "demoRecord (demoCkpt 7 [170] [0])"]
    handler_error_iff [of demoEnv demoMonitor "demoRecord (demoCkpt 7 [170] [1])"]
  by (simp add: demo_verify_ok demo_verify_fork demo_verify_badsig)
     (simp add: demo_defs)

section \<open>The sorted validator set\<close>

text \<open>What the comparison returns, by the numbers of the two addresses.\<close>

lemma less_func_Inr:
  "(less_func lib a b = Inr r) =
     (\<exists>ka kb. addrKey lib a = Some ka \<and> addrKey lib b = Some kb \<and> r = (ka < kb))"
  by (auto simp: less_func_def addrKey_def split: sum.split option.split)

lemma key_le_trans: "key_le lib a b \<Longrightarrow> key_le lib b c \<Longrightarrow> key_le lib a c"
  by (auto simp: key_le_def split: option.splits)

lemma less_func_False: "less_func lib x y = Inr False \<Longrightarrow> key_le lib y x"
  by (auto simp: less_func_Inr key_le_def)

lemma less_func_True: "less_func lib x y = Inr True \<Longrightarrow> key_le lib x y"
  by (auto simp: less_func_Inr key_le_def)


text \<open>The two ways in which the inner loop ends without a panic: the entry stays
  where it is, or it is swapped with the one before and the loop goes on.\<close>

lemma sink_Cons_Inr:
  "(sink lessFn x (y # before) = Inr r) =
     ((lessFn x y = Inr False \<and> r = x # y # before) \<or>
      (lessFn x y = Inr True \<and> (\<exists>r'. sink lessFn x before = Inr r' \<and> r = y # r')))"
  by (cases "lessFn x y"; cases "sink lessFn x before") auto

lemma set_sink: "sink lessFn x front = Inr r \<Longrightarrow> set r = insert x (set front)"
proof (induction front arbitrary: r)
  case Nil
  then show ?case by auto
next
  case (Cons y before)
  from Cons.prems consider "r = x # y # before"
    | r' where "sink lessFn x before = Inr r'" "r = y # r'"
    unfolding sink_Cons_Inr by blast
  then show ?case
  proof cases
    case 1
    then show ?thesis by auto
  next
    case 2
    with Cons.IH [of r'] show ?thesis by auto
  qed
qed

lemma mset_sink: "sink lessFn x front = Inr r \<Longrightarrow> mset r = add_mset x (mset front)"
proof (induction front arbitrary: r)
  case Nil
  then show ?case by auto
next
  case (Cons y before)
  from Cons.prems consider "r = x # y # before"
    | r' where "sink lessFn x before = Inr r'" "r = y # r'"
    unfolding sink_Cons_Inr by blast
  then show ?case
  proof cases
    case 1
    then show ?thesis by simp
  next
    case 2
    with Cons.IH [of r'] show ?thesis by simp
  qed
qed

text \<open>The part before index \<open>i\<close>, read last entry first, stays in descending order.\<close>

lemma sorted_sink:
  "sorted_wrt (\<lambda>a b. key_le lib b a) front \<Longrightarrow> sink (less_func lib) x front = Inr r \<Longrightarrow>
     sorted_wrt (\<lambda>a b. key_le lib b a) r"
proof (induction front arbitrary: r)
  case Nil
  then show ?case by auto
next
  case (Cons y before)
  from Cons.prems(2) consider
      (stay) "less_func lib x y = Inr False" "r = x # y # before"
    | (move) r' where "less_func lib x y = Inr True" "sink (less_func lib) x before = Inr r'" "r = y # r'"
    unfolding sink_Cons_Inr by blast
  then show ?case
  proof cases
    case stay
    then have yx: "key_le lib y x" by (simp add: less_func_False)
    have "\<forall>z\<in>set before. key_le lib z x"
      using Cons.prems(1) yx by (auto intro: key_le_trans)
    with yx Cons.prems(1) stay(2) show ?thesis by simp
  next
    case move
    then have xy: "key_le lib x y" by (simp add: less_func_True)
    from Cons.prems(1) have "sorted_wrt (\<lambda>a b. key_le lib b a) before" by simp
    with Cons.IH move(2) have s: "sorted_wrt (\<lambda>a b. key_le lib b a) r'" by blast
    have "set r' = insert x (set before)" using move(2) by (rule set_sink)
    with xy Cons.prems(1) have "\<forall>z\<in>set r'. key_le lib z y" by auto
    with s move(3) show ?thesis by simp
  qed
qed

lemma insertionSort_func_Cons_Inr:
  "(insertionSort_func lessFn front (x # rest) = Inr out) =
     (\<exists>front'. sink lessFn x front = Inr front' \<and> insertionSort_func lessFn front' rest = Inr out)"
  by (cases "sink lessFn x front") auto

lemma sorted_insertionSort_func:
  "sorted_wrt (\<lambda>a b. key_le lib b a) front \<Longrightarrow>
   insertionSort_func (less_func lib) front rest = Inr out \<Longrightarrow>
     sorted_wrt (key_le lib) out"
proof (induction rest arbitrary: front)
  case Nil
  then show ?case by (auto simp: sorted_wrt_rev)
next
  case (Cons x rest)
  from Cons.prems(2) obtain front' where f: "sink (less_func lib) x front = Inr front'"
    and i: "insertionSort_func (less_func lib) front' rest = Inr out"
    unfolding insertionSort_func_Cons_Inr by blast
  from Cons.prems(1) f have "sorted_wrt (\<lambda>a b. key_le lib b a) front'" by (rule sorted_sink)
  with Cons.IH i show ?case by blast
qed

lemma mset_insertionSort_func:
  "insertionSort_func lessFn front rest = Inr out \<Longrightarrow> mset out = mset front + mset rest"
proof (induction rest arbitrary: front)
  case Nil
  then show ?case by auto
next
  case (Cons x rest)
  from Cons.prems obtain front' where f: "sink lessFn x front = Inr front'"
    and i: "insertionSort_func lessFn front' rest = Inr out"
    unfolding insertionSort_func_Cons_Inr by blast
  from Cons.IH [OF i] mset_sink [OF f] show ?case by simp
qed


text \<open>The insertion sort on a whole slice: it sorts, it permutes, it leaves a
  sorted slice as it is, and it has a result when every address has a number.\<close>

lemma insertionSort_sorted:
  "insertionSort_func (less_func lib) [] xs = Inr out \<Longrightarrow> sorted_wrt (key_le lib) out"
  by (rule sorted_insertionSort_func [of lib "[]"]) auto

lemma insertionSort_mset: "insertionSort_func lessFn [] xs = Inr out \<Longrightarrow> mset out = mset xs"
  by (drule mset_insertionSort_func) simp


lemma sink_total:
  "addrKey lib x \<noteq> None \<Longrightarrow> \<forall>v\<in>set front. addrKey lib v \<noteq> None \<Longrightarrow>
     \<exists>r. sink (less_func lib) x front = Inr r"
proof (induction front)
  case Nil
  then show ?case by simp
next
  case (Cons y before)
  then obtain ka kb where "addrKey lib x = Some ka" "addrKey lib y = Some kb" by auto
  then have l: "less_func lib x y = Inr (ka < kb)" by (simp add: less_func_Inr)
  from Cons obtain r where r: "sink (less_func lib) x before = Inr r" by auto
  show ?case
  proof (cases "ka < kb")
    case True
    with l r show ?thesis by simp
  next
    case False
    with l show ?thesis by simp
  qed
qed

lemma insertionSort_func_total:
  "\<forall>v\<in>set front \<union> set rest. addrKey lib v \<noteq> None \<Longrightarrow>
     \<exists>out. insertionSort_func (less_func lib) front rest = Inr out"
proof (induction rest arbitrary: front)
  case Nil
  then show ?case by simp
next
  case (Cons x rest)
  then obtain r where r: "sink (less_func lib) x front = Inr r"
    using sink_total [of lib x front] by auto
  then have "set r = insert x (set front)" by (rule set_sink)
  with Cons.prems have "\<forall>v\<in>set r \<union> set rest. addrKey lib v \<noteq> None" by auto
  from Cons.IH [OF this] r show ?case by simp
qed


text \<open>\<^verbatim>\<open>sort.Slice\<close> with the comparison of \<^verbatim>\<open>GetSortedValSet\<close>: on a slice of
  more than twelve entries the facts rest on what is assumed of the library.\<close>

lemma library_sorts_result:
  "library_sorts lib \<Longrightarrow> 12 < length xs \<Longrightarrow> pdqsort_func lib (less_func lib) xs = Inr ys \<Longrightarrow>
     mset ys = mset xs \<and> sorted_wrt (key_le lib) ys"
  unfolding library_sorts_def by blast


lemma library_sorts_total:
  "library_sorts lib \<Longrightarrow> 12 < length xs \<Longrightarrow> \<forall>v\<in>set xs. addrKey lib v \<noteq> None \<Longrightarrow>
     \<exists>ys. pdqsort_func lib (less_func lib) xs = Inr ys"
  unfolding library_sorts_def by blast

lemma sort_Slice_mset:
  assumes "12 < length xs \<longrightarrow> library_sorts lib"
    and "sort_Slice lib (less_func lib) xs = Inr out"
  shows "mset out = mset xs"
proof (cases "length xs \<le> 12")
  case True
  with assms(2) show ?thesis by (simp add: sort_Slice_def insertionSort_mset)
next
  case False
  with assms show ?thesis
    using library_sorts_result [of lib xs out] by (simp add: sort_Slice_def)
qed

lemma sort_Slice_sorted:
  assumes "12 < length xs \<longrightarrow> library_sorts lib"
    and "sort_Slice lib (less_func lib) xs = Inr out"
  shows "sorted_wrt (key_le lib) out"
proof (cases "length xs \<le> 12")
  case True
  with assms(2) show ?thesis by (simp add: sort_Slice_def insertionSort_sorted)
next
  case False
  with assms show ?thesis
    using library_sorts_result [of lib xs out] by (simp add: sort_Slice_def)
qed



lemma sort_Slice_total:
  assumes "12 < length xs \<longrightarrow> library_sorts lib"
    and "\<forall>v\<in>set xs. addrKey lib v \<noteq> None"
  shows "\<exists>out. sort_Slice lib (less_func lib) xs = Inr out"
proof (cases "length xs \<le> 12")
  case True
  with assms(2) show ?thesis
    using insertionSort_func_total [of "[]" xs lib] by (simp add: sort_Slice_def)
next
  case False
  with assms show ?thesis
    using library_sorts_total [of lib xs] by (simp add: sort_Slice_def)
qed

lemma GetSortedValSet_Inr:
  "(GetSortedValSet lib valSet = Inr out) =
     (\<exists>s. sort_Slice lib (less_func lib) (ValSet valSet) = Inr s \<and> out = valSet\<lparr>ValSet := s\<rparr>)"
  by (cases "sort_Slice lib (less_func lib) (ValSet valSet)") (auto simp: GetSortedValSet_def)


lemmas demo_sort_defs =
  GetSortedValSet_def sort_Slice_def less_func_def addrKey_def BigEndianToUint64_def
  demoLib_def demoAddresses_def demoValidator_def






text \<open>A validator set whose addresses all have a number is sorted without a
  panic.\<close>

lemma GetSortedValSet_completes:
  assumes "12 < length (ValSet valSet) \<longrightarrow> library_sorts lib"
    and "\<forall>v\<in>set (ValSet valSet). addrKey lib v \<noteq> None"
  shows "\<exists>out. GetSortedValSet lib valSet = Inr out"
proof -
  from assms obtain s where "sort_Slice lib (less_func lib) (ValSet valSet) = Inr s"
    using sort_Slice_total [of "ValSet valSet" lib] by blast
  then show ?thesis by (simp add: GetSortedValSet_def)
qed

lemma sorted_wrt_key_le_keys:
  "sorted_wrt (key_le lib) xs \<Longrightarrow> 2 \<le> length xs \<Longrightarrow> v \<in> set xs \<Longrightarrow> addrKey lib v \<noteq> None"
proof (induction xs)
  case Nil
  then show ?case by simp
next
  case (Cons a xs)
  show ?case
  proof (cases xs)
    case Nil
    with Cons.prems show ?thesis by simp
  next
    case (Cons b ys)
    with Cons.prems(1) have ab: "key_le lib a b" by simp
    show ?thesis
    proof (cases "v = a")
      case True
      with ab show ?thesis by (auto simp: key_le_def split: option.splits)
    next
      case False
      with Cons.prems(3) have vin: "v \<in> set xs" by simp
      with Cons.prems(1) have "key_le lib a v" by simp
      then show ?thesis by (auto simp: key_le_def split: option.splits)
    qed
  qed
qed

text \<open>With two entries or more, one address without a number makes the sort
  panic: every entry is compared at least once.\<close>

lemma GetSortedValSet_panics:
  assumes "12 < length (ValSet valSet) \<longrightarrow> library_sorts lib"
    and "2 \<le> length (ValSet valSet)" and "v \<in> set (ValSet valSet)" and "addrKey lib v = None"
  shows "\<exists>p. GetSortedValSet lib valSet = Inl p"
proof (cases "GetSortedValSet lib valSet")
  case (Inl p)
  then show ?thesis by simp
next
  case (Inr out)
  then obtain s where s: "sort_Slice lib (less_func lib) (ValSet valSet) = Inr s"
    unfolding GetSortedValSet_Inr by blast
  from assms(1) s have sorted: "sorted_wrt (key_le lib) s" by (rule sort_Slice_sorted)
  from assms(1) s have m: "mset s = mset (ValSet valSet)" by (rule sort_Slice_mset)
  then have "length s = length (ValSet valSet)" by (rule mset_eq_length)
  moreover from m have "set s = set (ValSet valSet)" by (rule mset_eq_setD)
  ultimately have "addrKey lib v \<noteq> None"
    using sorted assms(2,3) sorted_wrt_key_le_keys [of lib s v] by simp
  with assms(4) show ?thesis by simp
qed

text \<open>
  Claim C8. The comparison panics on an address that does not parse, but
  \<^verbatim>\<open>sort.Slice\<close> calls it only when the slice has two entries or more. On a
  validator set of one entry whose address does not parse,
  \<^verbatim>\<open>GetSortedValSet\<close> returns the set and \<^verbatim>\<open>New\<close> builds the monitor; with a
  second entry the same address makes the sort panic.
\<close>

theorem GetSortedValSet_single_unparsed:
  "addrKey demoLib (demoValidator ''not-bech32'') = None \<and>
   GetSortedValSet demoLib \<lparr>ValSet = [demoValidator ''not-bech32'']\<rparr> =
     Inr \<lparr>ValSet = [demoValidator ''not-bech32'']\<rparr> \<and>
   New demoLib \<lparr>LivenessChecker = False\<rparr> \<lparr>ValSet = [demoValidator ''not-bech32'']\<rparr> =
     Inr \<lparr>Cfg = \<lparr>LivenessChecker = False\<rparr>,
          curEpoch = \<lparr>epoch_number = 0, validator_roster = \<lparr>ValSet = [demoValidator ''not-bech32'']\<rparr>\<rparr>,
          checkpointChecklist = [],
          started = False,
          quit = False\<rparr> \<and>
   GetSortedValSet demoLib \<lparr>ValSet = [demoValidator ''not-bech32'', demoValidator ''val-a'']\<rparr> =
     Inl (FailedToParseValidatorAddress ''not-bech32'' ''decoding bech32 failed'')"
  by (simp add: New_def demo_sort_defs NewEpochInfo_def NewCheckpointsBookkeeper_def)

section \<open>The loop, Start and Stop\<close>

text \<open>A pass that fires keeps \<open>quit\<close>, and keeps \<open>started\<close> unless it is the
  receive from the closed channel.\<close>

lemma selectCase_Some:
  "selectCase env m c = Some (m', out) \<Longrightarrow>
     quit m' = quit m \<and>
     (started m' = started m \<and> c \<noteq> FromQuit \<or> c = FromQuit \<and> quit m \<and> \<not> started m')"
proof (cases c)
  case FromQuit
  assume "selectCase env m c = Some (m', out)"
  with FromQuit show ?thesis by (auto simp: selectCase_def split: if_splits)
next
  case (FromHeadersChan header)
  assume "selectCase env m c = Some (m', out)"
  with FromHeadersChan show ?thesis by (auto simp: selectCase_def split: prod.splits)
next
  case (FromCheckpointsChan ckpt)
  assume "selectCase env m c = Some (m', out)"
  with FromCheckpointsChan have "m' = fst (snd (handleNewConfirmedCheckpoint env m ckpt))"
    by (auto simp: selectCase_def split: prod.splits)
  with FromCheckpointsChan handle_started_quit [of env m ckpt] show ?thesis by simp
qed

lemma selectCase_event:
  "c \<noteq> FromQuit \<Longrightarrow> \<exists>m' out. selectCase env m c = Some (m', out)"
  by (cases c) (auto simp: selectCase_def split: prod.splits)

text \<open>
  Claim C7. While the loop runs (\<open>started\<close> holds), a pass that takes a header
  or a checkpoint record always completes, whatever its handler returns, and
  leaves \<open>started\<close> set; the loop then goes on with the cases that follow. A
  pass clears \<open>started\<close> only when it is the receive from the closed
  \<^verbatim>\<open>quit\<close> channel.
\<close>

theorem loop_survives_failures:
  "(started m \<and> c \<noteq> FromQuit \<longrightarrow>
      (\<exists>m' out. selectCase env m c = Some (m', out) \<and> started m' \<and>
         eventLoop env m (c # cs) =
           (case eventLoop env m' cs of (m'', out', rest) \<Rightarrow> (m'', out @ out', rest))))
   \<and>
   (started m \<and> selectCase env m c = Some (m', out) \<and> \<not> started m' \<longrightarrow> c = FromQuit \<and> quit m)"
proof (intro conjI impI)
  assume a: "started m \<and> c \<noteq> FromQuit"
  then obtain m1 out1 where s: "selectCase env m c = Some (m1, out1)"
    using selectCase_event [of c env m] by blast
  with a have "started m1" using selectCase_Some [of env m c m1 out1] by auto
  moreover from a s have "eventLoop env m (c # cs) =
      (case eventLoop env m1 cs of (m'', out', rest) \<Rightarrow> (m'', out1 @ out', rest))"
    by simp
  ultimately show "\<exists>m' out. selectCase env m c = Some (m', out) \<and> started m' \<and>
         eventLoop env m (c # cs) =
           (case eventLoop env m' cs of (m'', out', rest) \<Rightarrow> (m'', out @ out', rest))"
    using s by blast
next
  assume "started m \<and> selectCase env m c = Some (m', out) \<and> \<not> started m'"
  then show "c = FromQuit" using selectCase_Some [of env m c m' out] by auto
next
  assume "started m \<and> selectCase env m c = Some (m', out) \<and> \<not> started m'"
  then show "quit m" using selectCase_Some [of env m c m' out] by auto
qed

lemma demo_handle_fork:
  "handleNewConfirmedCheckpoint demoEnv demoMonitor (demoRecord (demoCkpt 7 [187] [1])) =
     (Some (VerificationFailed 7 ErrInconsistentLastCommitHash),
      demoMonitor\<lparr>checkpointChecklist := [demoRecord (demoCkpt 7 [187] [1])]\<rparr>,
      [CallVerifyMultiSig demoEpoch (demoCkpt 7 [187] [1]),
       CallQueryRawCheckpoint 7,
       CallVerifyMultiSig demoEpoch (demoCkpt 7 [170] [1])])"
  by (simp add: handleNewConfirmedCheckpoint_def VerifyCheckpoint_def addCheckpointToCheckList_def
      Add_def NewCheckpointRecord_def demo_defs)

theorem loop_survives_failures_witness:
  "fst (handleNewConfirmedCheckpoint demoEnv demoMonitor (demoRecord (demoCkpt 7 [187] [1]))) =
     Some (VerificationFailed 7 ErrInconsistentLastCommitHash) \<and>
   started demoMonitor \<and>
   started (demoMonitor\<lparr>checkpointChecklist := [demoRecord (demoCkpt 7 [187] [1])]\<rparr>) \<and>
   eventLoop demoEnv demoMonitor
       [FromCheckpointsChan (demoRecord (demoCkpt 7 [187] [1])), FromHeadersChan 2] =
     (demoMonitor\<lparr>checkpointChecklist := [demoRecord (demoCkpt 7 [187] [1])]\<rparr>,
      [CallVerifyMultiSig demoEpoch (demoCkpt 7 [187] [1]),
       CallQueryRawCheckpoint 7,
       CallVerifyMultiSig demoEpoch (demoCkpt 7 [170] [1]),
       CallContainsBTCHeader [2]],
      [])"
proof -
  let ?c = "FromCheckpointsChan (demoRecord (demoCkpt 7 [187] [1])) :: nat selected"
  let ?m1 = "demoMonitor\<lparr>checkpointChecklist := [demoRecord (demoCkpt 7 [187] [1])]\<rparr>"
  have st: "started demoMonitor" by (simp add: demoMonitor_def)
  have sel: "selectCase demoEnv demoMonitor ?c =
      Some (?m1, [CallVerifyMultiSig demoEpoch (demoCkpt 7 [187] [1]),
                  CallQueryRawCheckpoint 7,
                  CallVerifyMultiSig demoEpoch (demoCkpt 7 [170] [1])])"
    by (simp add: selectCase_def demo_handle_fork)
  have nxt: "eventLoop demoEnv ?m1 [FromHeadersChan 2] = (?m1, [CallContainsBTCHeader [2]], [])"
    by (simp add: selectCase_def handleNewConfirmedHeader_def checkHeaderConsistency_def
        demoEnv_def demoMonitor_def Let_def)
  from loop_survives_failures [of demoMonitor ?c demoEnv "[FromHeadersChan 2]"] st sel nxt
  have "started ?m1 \<and>
      eventLoop demoEnv demoMonitor [?c, FromHeadersChan 2] =
        (?m1, [CallVerifyMultiSig demoEpoch (demoCkpt 7 [187] [1]),
               CallQueryRawCheckpoint 7,
               CallVerifyMultiSig demoEpoch (demoCkpt 7 [170] [1]),
               CallContainsBTCHeader [2]], [])"
    by simp
  with st show ?thesis by (simp add: demo_handle_fork)
qed

text \<open>
  Claim C9. When the monitor is started already, \<^verbatim>\<open>Start\<close> returns at once: the
  monitor is unchanged, no goroutine is launched (the trace is empty, so the
  scanner is not started again), and no case of a \<^verbatim>\<open>select\<close> is consumed, so
  no second loop runs.
\<close>

theorem Start_when_started:
  "started m \<Longrightarrow> Start env m cs = (m, [], cs, Returned)"
  by (simp add: Start_def)

theorem Start_when_started_witness:
  "started demoMonitor \<and>
   Start demoEnv demoMonitor [FromCheckpointsChan (demoRecord (demoCkpt 7 [170] [1]))] =
     (demoMonitor, [], [FromCheckpointsChan (demoRecord (demoCkpt 7 [170] [1]))], Returned)"
proof -
  have st: "started demoMonitor" by (simp add: demoMonitor_def)
  from Start_when_started [OF st, of demoEnv "[FromCheckpointsChan (demoRecord (demoCkpt 7 [170] [1]))]"] st
  show ?thesis by simp
qed

text \<open>For contrast: from a monitor that is not started, \<^verbatim>\<open>Start\<close> launches the
  scanner and the liveness checker, runs the loop, and returns after the
  receive from the closed channel.\<close>

lemma Start_from_idle:
  "Start demoEnv (demoMonitor\<lparr>started := False, quit := True\<rparr>) [FromHeadersChan 1, FromQuit] =
     (demoMonitor\<lparr>started := False, quit := True\<rparr>,
      [GoRunBTCScanner, GoRunLivenessChecker, CallContainsBTCHeader [1], WgWait],
      [],
      Returned)"
  by (simp add: Start_def selectCase_def handleNewConfirmedHeader_def checkHeaderConsistency_def
      demoEnv_def demoMonitor_def Let_def)

text \<open>The two statements of \<^verbatim>\<open>Stop\<close>, taken one after the other, are \<^verbatim>\<open>Stop\<close>.\<close>

lemma Stop_statements:
  "stopAt s = AtCloseQuit \<Longrightarrow>
     run env [StopStatement, StopStatement] s =
       (case Stop (mon s) of
          Inl p \<Rightarrow> None
        | Inr (m', cs) \<Rightarrow> Some (s\<lparr>mon := m', stopAt := StopReturned, scannerStopped := True\<rparr>))"
  by (simp add: step_def Stop_def)

lemma step_consistent: "step env a s = Some s' \<Longrightarrow> consistent s \<Longrightarrow> consistent s'"
proof (cases a)
  case StopStatement
  assume "step env a s = Some s'" "consistent s"
  with StopStatement show ?thesis
    by (cases "stopAt s") (auto simp: step_def consistent_def split: if_splits)
next
  case (LoopPass c)
  assume st: "step env a s = Some s'" and inv: "consistent s"
  show ?thesis
  proof (cases "started (mon s)")
    case False
    with st LoopPass inv show ?thesis
      by (cases "loopAt s") (auto simp: step_def consistent_def)
  next
    case True
    with st LoopPass obtain m' out where sel: "selectCase env (mon s) c = Some (m', out)"
      and s': "s' = s\<lparr>mon := m'\<rparr>" and l: "loopAt s = InLoop"
      by (cases "loopAt s"; cases "selectCase env (mon s) c") (auto simp: step_def)
    from selectCase_Some [OF sel] True inv s' l show ?thesis
      by (auto simp: consistent_def)
  qed
qed

lemma run_consistent: "run env sched s = Some s' \<Longrightarrow> consistent s \<Longrightarrow> consistent s'"
proof (induction sched arbitrary: s)
  case Nil
  then show ?case by simp
next
  case (Cons a sched)
  from Cons.prems(1) obtain s1 where 1: "step env a s = Some s1" and 2: "run env sched s1 = Some s'"
    by (cases "step env a s") auto
  from 1 Cons.prems(2) have "consistent s1" by (rule step_consistent)
  with Cons.IH 2 show ?case by blast
qed

text \<open>
  Claim C6, as stated, fails: \<^verbatim>\<open>Stop\<close> closes the channel, stops the scanner
  and returns; nothing in it waits for the loop. From the running monitor, the
  schedule that takes the two statements of \<^verbatim>\<open>Stop\<close> and no pass of the loop
  ends with \<^verbatim>\<open>Stop\<close> returned, the loop still in its \<^verbatim>\<open>select\<close> and
  \<open>started\<close> still set.
\<close>

theorem Stop_returns_while_loop_runs:
  "run demoEnv [StopStatement, StopStatement] demoSystem =
     Some \<lparr>mon = demoMonitor\<lparr>quit := True\<rparr>,
           loopAt = InLoop,
           stopAt = StopReturned,
           scannerStopped = True\<rparr> \<and>
   started (demoMonitor\<lparr>quit := True\<rparr>)"
  by (simp add: step_def demoSystem_def demoMonitor_def)

text \<open>
  Claim C6, amended. \<^verbatim>\<open>Stop\<close> returns only after it has closed the \<^verbatim>\<open>quit\<close>
  channel and the scanner's own stop sequence has completed; it does not wait
  for the event loop. The loop exits only with the channel closed and
  \<open>started\<close> cleared, and once it has exited no header or checkpoint event is
  processed. This holds after every schedule, from a running loop and a call of
  \<^verbatim>\<open>Stop\<close> about to close the channel.
\<close>

theorem Stop_signals_only:
  assumes "stopAt s0 = AtCloseQuit" and "loopAt s0 = InLoop" and "started (mon s0)"
    and "run env sched s0 = Some s"
  shows "(stopAt s = StopReturned \<longrightarrow> quit (mon s) \<and> scannerStopped s) \<and>
         (loopAt s = LoopExited \<longrightarrow>
            quit (mon s) \<and> \<not> started (mon s) \<and> step env (LoopPass c) s = None)"
proof -
  from assms(1-3) have "consistent s0" by (simp add: consistent_def)
  with assms(4) have "consistent s" by (rule run_consistent)
  then show ?thesis by (auto simp: consistent_def step_def)
qed

theorem Stop_signals_only_witness:
  "stopAt demoSystem = AtCloseQuit \<and> loopAt demoSystem = InLoop \<and> started (mon demoSystem) \<and>
   run demoEnv
       [StopStatement, LoopPass (FromHeadersChan 1), StopStatement, LoopPass FromQuit, LoopPass FromQuit]
       demoSystem =
     Some \<lparr>mon = demoMonitor\<lparr>started := False, quit := True\<rparr>,
           loopAt = LoopExited,
           stopAt = StopReturned,
           scannerStopped = True\<rparr> \<and>
   step demoEnv (LoopPass (FromCheckpointsChan (demoRecord (demoCkpt 7 [170] [1]))))
       \<lparr>mon = demoMonitor\<lparr>started := False, quit := True\<rparr>,
        loopAt = LoopExited,
        stopAt = StopReturned,
        scannerStopped = True\<rparr> = None"
proof -
  let ?sched = "[StopStatement, LoopPass (FromHeadersChan 1), StopStatement, LoopPass FromQuit,
                 LoopPass FromQuit] :: nat action list"
  let ?s = "\<lparr>mon = demoMonitor\<lparr>started := False, quit := True\<rparr>,
            loopAt = LoopExited, stopAt = StopReturned, scannerStopped = True\<rparr>"
  have 1: "stopAt demoSystem = AtCloseQuit" by (simp add: demoSystem_def)
  have 2: "loopAt demoSystem = InLoop" by (simp add: demoSystem_def)
  have 3: "started (mon demoSystem)" by (simp add: demoSystem_def demoMonitor_def)
  have 4: "run demoEnv ?sched demoSystem = Some ?s"
    by (simp add: step_def selectCase_def handleNewConfirmedHeader_def checkHeaderConsistency_def
        demoSystem_def demoMonitor_def demoEnv_def Let_def)
  from Stop_signals_only [OF 1 2 3 4, of "FromCheckpointsChan (demoRecord (demoCkpt 7 [170] [1]))"]
  have "step demoEnv (LoopPass (FromCheckpointsChan (demoRecord (demoCkpt 7 [170] [1])))) ?s = None"
    by simp
  with 1 2 3 4 show ?thesis by simp
qed

end
